theory Spec2Isabelle
  imports
    Main
    "HOL-Library.AList"
    "HOL-Library.Char_ord"
    "HOL-Library.List_Lexorder"
    "HOL-Library.Multiset"
begin

section \<open>Python values and the built-ins the script relies on\<close>

text \<open>
  A Python \<open>str\<close> is modelled as a \<open>string\<close> holding its UTF-8 bytes: the report is
  written as UTF-8, and the byte order of UTF-8 is the code point order Python compares
  strings by. A value that \<open>json.loads\<close> returns is a \<open>pyval\<close>; a \<open>dict\<close> is an
  association list in insertion order (its keys are distinct in every value the parser
  returns; a lookup reads the first binding). A float is carried by the text of its
  \<open>repr\<close>: the script never computes with one.
\<close>

datatype pyval =
    PNone
  | PBool bool
  | PInt int
  | PFloat string
  | PStr string
  | PList "pyval list"
  | PDict "(string \<times> pyval) list"

type_synonym dict = "(string \<times> pyval) list"

text \<open>The exceptions that can leave \<open>main\<close> uncaught.\<close>

datatype py_exception = AttributeError | KeyError | TypeError

text \<open>
  \<open>json.loads\<close> is not code of the script; it is a parameter of the model. It returns
  the decoded value, raises \<open>json.JSONDecodeError\<close> (with the text of \<open>str(e)\<close>), or
  raises some other exception, which CPython does on a document nested too deeply
  (\<open>RecursionError\<close>) or on an integer literal with too many digits (\<open>ValueError\<close>).
\<close>

datatype loads_result =
    Loaded pyval
  | JSONDecodeError string
  | Raised string

abbreviation nl :: string where
  "nl \<equiv> [CHR 0x0A]"

subsection \<open>\<open>str.strip\<close> and \<open>str.upper\<close>\<close>

text \<open>
  The characters \<open>str.strip()\<close> removes are the Unicode white space characters, here in
  UTF-8: U+0009..U+000D, U+001C..U+0020, U+0085, U+00A0, U+1680, U+2000..U+200A, U+2028,
  U+2029, U+202F, U+205F and U+3000.
\<close>

definition whitespace :: "string list" where
  "whitespace =
     [[CHR 0x09], [CHR 0x0A], [CHR 0x0B], [CHR 0x0C], [CHR 0x0D],
      [CHR 0x1C], [CHR 0x1D], [CHR 0x1E], [CHR 0x1F], [CHR 0x20],
      [CHR 0xC2, CHR 0x85], [CHR 0xC2, CHR 0xA0],
      [CHR 0xE1, CHR 0x9A, CHR 0x80],
      [CHR 0xE2, CHR 0x80, CHR 0x80], [CHR 0xE2, CHR 0x80, CHR 0x81],
      [CHR 0xE2, CHR 0x80, CHR 0x82], [CHR 0xE2, CHR 0x80, CHR 0x83],
      [CHR 0xE2, CHR 0x80, CHR 0x84], [CHR 0xE2, CHR 0x80, CHR 0x85],
      [CHR 0xE2, CHR 0x80, CHR 0x86], [CHR 0xE2, CHR 0x80, CHR 0x87],
      [CHR 0xE2, CHR 0x80, CHR 0x88], [CHR 0xE2, CHR 0x80, CHR 0x89],
      [CHR 0xE2, CHR 0x80, CHR 0x8A],
      [CHR 0xE2, CHR 0x80, CHR 0xA8], [CHR 0xE2, CHR 0x80, CHR 0xA9],
      [CHR 0xE2, CHR 0x80, CHR 0xAF],
      [CHR 0xE2, CHR 0x81, CHR 0x9F],
      [CHR 0xE3, CHR 0x80, CHR 0x80]]"

definition ws_at_start :: "string \<Rightarrow> string option" where
  "ws_at_start s = find (\<lambda>w. take (length w) s = w) whitespace"

definition ws_at_end :: "string \<Rightarrow> string option" where
  "ws_at_end s =
     find (\<lambda>w. length w \<le> length s \<and> drop (length s - length w) s = w) whitespace"

function lstrip :: "string \<Rightarrow> string" where
  "lstrip s = (case ws_at_start s of None \<Rightarrow> s | Some w \<Rightarrow> lstrip (drop (length w) s))"
  by pat_completeness auto
termination
proof (relation "measure length")
  show "wf (measure length)" by simp
next
  fix s w
  assume "ws_at_start s = Some w"
  then have "w \<in> set whitespace" and t: "take (length w) s = w"
    by (auto simp: ws_at_start_def find_Some_iff)
  then have "w \<noteq> []" by (auto simp: whitespace_def)
  with t have "s \<noteq> []" by auto
  with \<open>w \<noteq> []\<close> show "(drop (length w) s, s) \<in> measure length"
    by (cases s; cases w) auto
qed

function rstrip :: "string \<Rightarrow> string" where
  "rstrip s =
     (case ws_at_end s of None \<Rightarrow> s | Some w \<Rightarrow> rstrip (take (length s - length w) s))"
  by pat_completeness auto
termination
proof (relation "measure length")
  show "wf (measure length)" by simp
next
  fix s w
  assume "ws_at_end s = Some w"
  then have "w \<in> set whitespace" and t: "length w \<le> length s"
    by (auto simp: ws_at_end_def find_Some_iff)
  then have "w \<noteq> []" by (auto simp: whitespace_def)
  with t show "(take (length s - length w) s, s) \<in> measure length"
    by (cases s; cases w) auto
qed

definition str_strip :: "string \<Rightarrow> string" where
  "str_strip s = rstrip (lstrip s)"

text \<open>
  \<open>str.upper()\<close> on the ASCII letters. Python also maps letters outside ASCII; the only
  ones it maps to ASCII text are U+00DF, U+0131, U+017F and the ligatures U+FB00..U+FB06
  (to SS, I, S, FF, FI, FL, FFI, FFL, ST). None of these can yield OK or WARN, and the
  one word they can yield, FAIL (from U+0131), is what \<open>normalize_status\<close> returns for a
  string it does not know anyway, so \<open>normalize_status\<close> below agrees with the script on
  every string.
\<close>

definition upper_char :: "char \<Rightarrow> char" where
  "upper_char c =
     (if CHR ''a'' \<le> c \<and> c \<le> CHR ''z'' then char_of (of_char c - (32::nat)) else c)"

definition str_upper :: "string \<Rightarrow> string" where
  "str_upper s = map upper_char s"

subsection \<open>Formatting\<close>

text \<open>\<open>str(n)\<close> for an \<open>int\<close>, as an f-string writes it.\<close>

fun digits :: "nat \<Rightarrow> string" where
  "digits n =
     (if n < 10 then [char_of (48 + n)] else digits (n div 10) @ [char_of (48 + n mod 10)])"

definition str_int :: "int \<Rightarrow> string" where
  "str_int i = (if i < 0 then ''-'' @ digits (nat (- i)) else digits (nat i))"

text \<open>
  An f-string field \<open>{v}\<close> writes \<open>str(v)\<close>: a \<open>str\<close> as it is, any other value by its
  \<open>repr\<close>, which is Python's own and a parameter here.
\<close>

definition py_format :: "(pyval \<Rightarrow> string) \<Rightarrow> pyval \<Rightarrow> string" where
  "py_format repr v = (case v of PStr s \<Rightarrow> s | _ \<Rightarrow> repr v)"

subsection \<open>Dictionaries\<close>

definition dict_get :: "dict \<Rightarrow> string \<Rightarrow> pyval \<Rightarrow> pyval" where
  "dict_get d k dflt = (case map_of d k of None \<Rightarrow> dflt | Some v \<Rightarrow> v)"

definition dict_set :: "dict \<Rightarrow> string \<Rightarrow> pyval \<Rightarrow> dict" where
  "dict_set d k v = AList.update k v d"

section \<open>The script\<close>

subsection \<open>Reading one file\<close>

text \<open>
  A file of the log directory, as the script sees it: its name, the lines that iterating
  over it delivers, and the error that ends the iteration if one does (\<open>str(e)\<close> of the
  exception). A file that cannot be opened delivers no line before its error; a read
  that fails later (an I/O error, bytes that are not UTF-8 past the first buffer) has
  delivered the lines before it.
\<close>

record log_file =
  name :: string
  lines :: "string list"
  read_error :: "string option"

definition decode_error :: "string \<Rightarrow> int \<Rightarrow> string \<Rightarrow> string" where
  "decode_error nm lineno e = nm @ '':'' @ str_int lineno @ '' JSONDecodeError: '' @ e"

definition could_not_read :: "string \<Rightarrow> string \<Rightarrow> string" where
  "could_not_read nm e = nm @ '': Could not read file: '' @ e"

text \<open>
  The loop of \<open>read_jsonl_file\<close> from line number \<open>lineno\<close> on, with the two lists it
  appends to. Any exception but \<open>JSONDecodeError\<close> leaves the loop and is recorded by the
  outer handler.
\<close>

fun read_lines ::
  "(string \<Rightarrow> loads_result) \<Rightarrow> string \<Rightarrow> int \<Rightarrow> string list \<Rightarrow> string option \<Rightarrow>
     pyval list \<Rightarrow> string list \<Rightarrow> pyval list \<times> string list" where
  "read_lines loads nm lineno [] rerr entries errors =
     (case rerr of
        None \<Rightarrow> (entries, errors)
      | Some e \<Rightarrow> (entries, errors @ [could_not_read nm e]))"
| "read_lines loads nm lineno (l # ls) rerr entries errors =
     (let line = str_strip l in
      if line = [] then read_lines loads nm (lineno + 1) ls rerr entries errors
      else
        (case loads line of
           Loaded obj \<Rightarrow> read_lines loads nm (lineno + 1) ls rerr (entries @ [obj]) errors
         | JSONDecodeError e \<Rightarrow>
             read_lines loads nm (lineno + 1) ls rerr entries
               (errors @ [decode_error nm lineno e])
         | Raised e \<Rightarrow> (entries, errors @ [could_not_read nm e])))"

definition read_jsonl_file ::
  "(string \<Rightarrow> loads_result) \<Rightarrow> log_file \<Rightarrow> pyval list \<times> string list" where
  "read_jsonl_file loads path =
     read_lines loads (name path) 1 (lines path) (read_error path) [] []"

subsection \<open>Status\<close>

definition ALLOWED_STATUS :: "string set" where
  "ALLOWED_STATUS = {''OK'', ''WARN'', ''FAIL''}"

definition normalize_status :: "pyval \<Rightarrow> string" where
  "normalize_status s =
     (case s of
        PStr t \<Rightarrow>
          (let u = str_upper (str_strip t) in if u \<in> ALLOWED_STATUS then u else ''FAIL'')
      | _ \<Rightarrow> ''FAIL'')"

definition score_status :: "string \<Rightarrow> int" where
  "score_status status =
     (case map_of [(''OK'', 0), (''WARN'', 1), (''FAIL'', 2)] status of
        Some n \<Rightarrow> n
      | None \<Rightarrow> 2)"

subsection \<open>\<open>main\<close>: reading all files\<close>

fun read_all ::
  "(string \<Rightarrow> loads_result) \<Rightarrow> log_file list \<Rightarrow> pyval list \<Rightarrow> string list \<Rightarrow>
     pyval list \<times> string list" where
  "read_all loads [] all_entries all_errors = (all_entries, all_errors)"
| "read_all loads (lf # lfs) all_entries all_errors =
     (case read_jsonl_file loads lf of
        (entries, errors) \<Rightarrow> read_all loads lfs (all_entries @ entries) (all_errors @ errors))"

subsection \<open>\<open>main\<close>: the classifier\<close>

text \<open>
  The test of lines 67 and 68: the record's \<open>check\<close> field, read with the default
  \<open>""\<close>, is one of the two reserved names.
\<close>

definition reserved :: "dict \<Rightarrow> bool" where
  "reserved e =
     (let check = dict_get e ''check'' (PStr []) in
      check = PStr ''run_start'' \<or> check = PStr ''run_summary'')"

text \<open>Lines 70 and 71: the normalized status is stored in the record itself.\<close>

definition attach_status :: "dict \<Rightarrow> dict" where
  "attach_status e =
     (let status = normalize_status (dict_get e ''status'' PNone) in
      dict_set e ''_norm_status'' (PStr status))"

text \<open>
  \<open>e.get("check", "")\<close> is the first thing done with a decoded value: on anything but a
  \<open>dict\<close> it raises \<open>AttributeError\<close>, which nothing catches.
\<close>

fun classify :: "pyval list \<Rightarrow> dict list \<Rightarrow> py_exception + dict list" where
  "classify [] check_entries = Inr check_entries"
| "classify (e # es) check_entries =
     (case e of
        PDict d \<Rightarrow>
          (if reserved d then classify es check_entries
           else classify es (check_entries @ [attach_status d]))
      | _ \<Rightarrow> Inl AttributeError)"

subsection \<open>\<open>main\<close>: the summary\<close>

text \<open>The dictionary \<open>counts\<close> has the three keys it is created with, and no other.\<close>

record counts =
  OK :: int
  WARN :: int
  FAIL :: int

definition counts_incr :: "counts \<Rightarrow> string \<Rightarrow> py_exception + counts" where
  "counts_incr c st =
     (if st = ''OK'' then Inr (c\<lparr>OK := OK c + 1\<rparr>)
      else if st = ''WARN'' then Inr (c\<lparr>WARN := WARN c + 1\<rparr>)
      else if st = ''FAIL'' then Inr (c\<lparr>FAIL := FAIL c + 1\<rparr>)
      else Inl KeyError)"

record summary =
  tally :: counts
  worst :: string
  findings :: "dict list"

text \<open>
  \<open>st = e["_norm_status"]\<close>, as the key \<open>counts[st]\<close> is then read with: a missing key
  and a key \<open>counts\<close> does not have raise \<open>KeyError\<close>, an unhashable one \<open>TypeError\<close>.
\<close>

definition norm_status_of :: "dict \<Rightarrow> py_exception + string" where
  "norm_status_of e =
     (case map_of e ''_norm_status'' of
        None \<Rightarrow> Inl KeyError
      | Some (PStr st) \<Rightarrow> Inr st
      | Some (PList _) \<Rightarrow> Inl TypeError
      | Some (PDict _) \<Rightarrow> Inl TypeError
      | Some _ \<Rightarrow> Inl KeyError)"

fun summarize :: "dict list \<Rightarrow> summary \<Rightarrow> py_exception + summary" where
  "summarize [] s = Inr s"
| "summarize (e # es) s =
     (case norm_status_of e of
        Inl ex \<Rightarrow> Inl ex
      | Inr st \<Rightarrow>
          (case counts_incr (tally s) st of
             Inl ex \<Rightarrow> Inl ex
           | Inr c \<Rightarrow>
               summarize es
                 \<lparr>tally = c,
                  worst = (if score_status st > score_status (worst s) then st else worst s),
                  findings = (if st = ''WARN'' \<or> st = ''FAIL'' then findings s @ [e]
                              else findings s)\<rparr>))"

subsection \<open>\<open>main\<close>: the risk level\<close>

abbreviation a_ring :: string where
  "a_ring \<equiv> [CHR 0xC3, CHR 0xA5]"

abbreviation a_uml :: string where
  "a_uml \<equiv> [CHR 0xC3, CHR 0xA4]"

abbreviation o_uml :: string where
  "o_uml \<equiv> [CHR 0xC3, CHR 0xB6]"

abbreviation arrow :: string where
  "arrow \<equiv> [CHR 0xE2, CHR 0x86, CHR 0x92]"

definition risk_low :: string where
  "risk_low = ''L'' @ a_ring @ ''g''"

definition risk_medium :: string where
  "risk_medium = ''Medel''"

definition risk_high :: string where
  "risk_high = ''H'' @ o_uml @ ''g''"

definition risk_level :: "int \<Rightarrow> string" where
  "risk_level fail_count =
     (if fail_count = 0 then risk_low
      else if fail_count = 1 then risk_medium
      else risk_high)"

subsection \<open>\<open>main\<close>: the report\<close>

definition render_finding :: "(pyval \<Rightarrow> string) \<Rightarrow> dict \<Rightarrow> string" where
  "render_finding repr e =
     ''- **'' @ py_format repr (dict_get e ''host'' (PStr ''?'')) @ ''** / ''
       @ py_format repr (dict_get e ''os'' (PStr ''?'')) @ '' / `''
       @ py_format repr (dict_get e ''check'' (PStr ''?'')) @ ''` '' @ arrow @ '' **''
       @ py_format repr (dict_get e ''_norm_status'' PNone) @ ''**'' @ nl
     @ ''  - Detaljer: '' @ py_format repr (dict_get e ''details'' (PStr [])) @ nl"

definition report_files :: "log_file list \<Rightarrow> string" where
  "report_files lfs =
     ''## Inl'' @ a_uml @ ''sta loggfiler'' @ nl
     @ concat (map (\<lambda>lf. ''- '' @ name lf @ nl) lfs) @ nl"

definition report_summary :: "nat \<Rightarrow> counts \<Rightarrow> string \<Rightarrow> string \<Rightarrow> string" where
  "report_summary n c w r =
     ''## Sammanfattning'' @ nl
     @ ''- Totalt antal kontroller (exkl. start/summering): '' @ str_int (int n) @ nl
     @ ''- OK: '' @ str_int (OK c) @ nl
     @ ''- WARN: '' @ str_int (WARN c) @ nl
     @ ''- FAIL: '' @ str_int (FAIL c) @ nl
     @ ''- V'' @ a_uml @ ''rsta status: **'' @ w @ ''**'' @ nl
     @ ''- Bed'' @ o_uml @ ''md riskniv'' @ a_ring @ '' (enkel modell): **'' @ r @ ''**''
     @ nl @ nl"

definition report_findings :: "(pyval \<Rightarrow> string) \<Rightarrow> dict list \<Rightarrow> string" where
  "report_findings repr fnd =
     ''## Avvikelser (WARN/FAIL)'' @ nl
     @ (if fnd = [] then ''Inga avvikelser identifierades.'' @ nl @ nl
        else concat (map (render_finding repr) fnd) @ nl)"

definition report_errors :: "string list \<Rightarrow> string" where
  "report_errors errs =
     ''## Fel vid inl'' @ a_uml @ ''sning (om n'' @ a_ring @ ''gra)'' @ nl
     @ (if errs = [] then ''Inga inl'' @ a_uml @ ''sningsfel.'' @ nl
        else concat (map (\<lambda>err. ''- '' @ err @ nl) errs))"

text \<open>Everything the script writes after the time stamp.\<close>

definition report_body ::
  "(pyval \<Rightarrow> string) \<Rightarrow> log_file list \<Rightarrow> nat \<Rightarrow> summary \<Rightarrow> string \<Rightarrow> string list \<Rightarrow> string"
  where
  "report_body repr lfs n s r errs =
     nl @ nl @ report_files lfs @ report_summary n (tally s) (worst s) r
     @ report_findings repr (findings s) @ report_errors errs"

definition write_report ::
  "(pyval \<Rightarrow> string) \<Rightarrow> string \<Rightarrow> log_file list \<Rightarrow> nat \<Rightarrow> summary \<Rightarrow> string \<Rightarrow> string list \<Rightarrow>
     string" where
  "write_report repr now lfs n s r errs =
     ''# Security baseline-rapport'' @ nl @ nl
     @ ''**Genererad:** '' @ now @ report_body repr lfs n s r errs"

subsection \<open>\<open>main\<close>\<close>

text \<open>
  The file system, as \<open>main\<close> asks it: what the path given as \<open>logdir\<close> resolves to, and
  for a directory its entries in the order the system lists them.
\<close>

datatype node = Directory "log_file list" | NotADirectory

text \<open>\<open>logdir.glob("*.jsonl")\<close>: the entries whose name ends in \<open>.jsonl\<close>.\<close>

definition glob_jsonl :: "string \<Rightarrow> bool" where
  "glob_jsonl nm = (6 \<le> length nm \<and> drop (length nm - 6) nm = ''.jsonl'')"

datatype config_error = Usage | BadLogdir | NoLogFiles

text \<open>What a run that reaches the last line of \<open>main\<close> has computed and written.\<close>

record run =
  log_files :: "log_file list"
  all_entries :: "pyval list"
  all_errors :: "string list"
  check_entries :: "dict list"
  result :: summary
  risk :: string
  report :: string
  exit_code :: int

text \<open>
  A run ends in \<open>sys.exit(2)\<close> before anything is written, in an exception nothing
  catches (the interpreter prints the traceback and exits with status 1; no report has
  been opened by then), or at the last line of \<open>main\<close>. Creating the report's directory
  and opening the report are taken to succeed.
\<close>

datatype outcome = ConfigError config_error | Traceback py_exception | Completed run

definition main ::
  "(string \<Rightarrow> loads_result) \<Rightarrow> (pyval \<Rightarrow> string) \<Rightarrow> (string \<Rightarrow> node option) \<Rightarrow> string \<Rightarrow>
     string list \<Rightarrow> outcome" where
  "main loads repr fs now argv =
     (if length argv \<noteq> 3 then ConfigError Usage
      else
        (case fs (argv ! 1) of
           None \<Rightarrow> ConfigError BadLogdir
         | Some NotADirectory \<Rightarrow> ConfigError BadLogdir
         | Some (Directory entries) \<Rightarrow>
             (let lfs = sort_key name (filter (\<lambda>lf. glob_jsonl (name lf)) entries) in
              if lfs = [] then ConfigError NoLogFiles
              else
                (case read_all loads lfs [] [] of
                   (ents, errs) \<Rightarrow>
                     (case classify ents [] of
                        Inl ex \<Rightarrow> Traceback ex
                      | Inr ces \<Rightarrow>
                          (case summarize ces
                                  \<lparr>tally = \<lparr>OK = 0, WARN = 0, FAIL = 0\<rparr>,
                                   worst = ''OK'', findings = []\<rparr> of
                             Inl ex \<Rightarrow> Traceback ex
                           | Inr s \<Rightarrow>
                               (let r = risk_level (FAIL (tally s)) in
                                Completed
                                  \<lparr>log_files = lfs, all_entries = ents, all_errors = errs,
                                   check_entries = ces, result = s, risk = r,
                                   report = write_report repr now lfs (length ces) s r errs,
                                   exit_code = (if FAIL (tally s) = 0 then 0 else 1)\<rparr>)))))))"

definition exit_status :: "outcome \<Rightarrow> int" where
  "exit_status out =
     (case out of ConfigError _ \<Rightarrow> 2 | Traceback _ \<Rightarrow> 1 | Completed r \<Rightarrow> exit_code r)"

definition report_file :: "outcome \<Rightarrow> string option" where
  "report_file out =
     (case out of ConfigError _ \<Rightarrow> None | Traceback _ \<Rightarrow> None | Completed r \<Rightarrow> Some (report r))"

section \<open>A sample log directory\<close>

text \<open>
  The lines of the samples below, and what \<open>json.loads\<close> returns on them; on the text
  \<open>not-json\<close>, as on any other that is not listed, it raises \<open>JSONDecodeError\<close> with the
  message given.
\<close>

definition line_start :: string where
  \<open>line_start = ''{"check":"run_start"}''\<close>

definition line_x :: string where
  \<open>line_x = ''{"check":"x","status":"fail","host":"h1"}''\<close>

definition line_y :: string where
  \<open>line_y = ''{"check":"y","status":"OK"}''\<close>

definition line_z :: string where
  \<open>line_z = ''{"check":"z","status":"warn","_norm_status":"FAIL"}''\<close>

definition sample_loads :: "string \<Rightarrow> loads_result" where
  "sample_loads s =
     (if s = line_start then Loaded (PDict [(''check'', PStr ''run_start'')])
      else if s = line_x then
        Loaded (PDict [(''check'', PStr ''x''), (''status'', PStr ''fail''),
                       (''host'', PStr ''h1'')])
      else if s = line_y then
        Loaded (PDict [(''check'', PStr ''y''), (''status'', PStr ''OK'')])
      else if s = line_z then
        Loaded (PDict [(''check'', PStr ''z''), (''status'', PStr ''warn''),
                       (''_norm_status'', PStr ''FAIL'')])
      else if s = ''42'' then Loaded (PInt 42)
      else JSONDecodeError ''Expecting value: line 1 column 1 (char 0)'')"

text \<open>
  A line holding an integer of 5000 digits. CPython (3.11, and the earlier versions that
  have the digit limit) does not convert it: \<open>json.loads\<close> raises \<open>ValueError\<close>, which
  is not a \<open>JSONDecodeError\<close>. The second decoder is the first with this line added.
\<close>

definition line_big :: string where
  "line_big = replicate 5000 (CHR ''1'')"

definition sample_loads_big :: "string \<Rightarrow> loads_result" where
  "sample_loads_big s =
     (if s = line_big then
        Raised (''Exceeds the limit (4300 digits) for integer string conversion: ''
                @ ''value has 5000 digits; use sys.set_int_max_str_digits() ''
                @ ''to increase the limit'')
      else sample_loads s)"

text \<open>The findings of the samples hold strings only, so \<open>repr\<close> is never asked.\<close>

definition sample_repr :: "pyval \<Rightarrow> string" where
  "sample_repr v = []"

definition file_a :: log_file where
  "file_a =
     \<lparr>name = ''a.jsonl'',
      lines = [line_start @ nl, line_x @ nl, ''not-json'' @ nl, line_y @ nl],
      read_error = None\<rparr>"

text \<open>A file with a blank second line and a line that is not JSON.\<close>

definition file_b :: log_file where
  "file_b =
     \<lparr>name = ''b.jsonl'',
      lines = [line_x @ nl, '' '' @ nl, ''not-json'' @ nl, line_z @ nl],
      read_error = None\<rparr>"

text \<open>A file whose only line is the JSON number 42.\<close>

definition file_n :: log_file where
  "file_n = \<lparr>name = ''n.jsonl'', lines = [''42'' @ nl], read_error = None\<rparr>"

text \<open>A file whose read fails after its first line, and one that cannot be opened.\<close>

definition file_c :: log_file where
  "file_c =
     \<lparr>name = ''c.jsonl'', lines = [line_y @ nl],
      read_error = Some ''[Errno 5] Input/output error''\<rparr>"

definition file_d :: log_file where
  "file_d =
     \<lparr>name = ''d.jsonl'', lines = [],
      read_error = Some ''[Errno 13] Permission denied''\<rparr>"

text \<open>A file whose first line is the long integer, followed by two more lines.\<close>

definition file_e :: log_file where
  "file_e =
     \<lparr>name = ''e.jsonl'', lines = [line_big @ nl, ''not-json'' @ nl, line_y @ nl],
      read_error = None\<rparr>"

definition notes_txt :: log_file where
  "notes_txt = \<lparr>name = ''notes.txt'', lines = [''hello'' @ nl], read_error = None\<rparr>"

definition sample_fs :: "string \<Rightarrow> node option" where
  "sample_fs p =
     (if p = ''logs'' then Some (Directory [notes_txt, file_a])
      else if p = ''logs_b'' then Some (Directory [file_b])
      else if p = ''logs_n'' then Some (Directory [file_n])
      else if p = ''logs_ab'' then Some (Directory [file_b, notes_txt, file_a])
      else if p = ''logs_d'' then Some (Directory [file_d, file_a])
      else if p = ''logs_e'' then Some (Directory [file_e])
      else if p = ''report.md'' then Some NotADirectory
      else None)"

text \<open>The same file system with the directory \<open>logs_ab\<close> listed in another order.\<close>

definition sample_fs' :: "string \<Rightarrow> node option" where
  "sample_fs' p =
     (if p = ''logs_ab'' then Some (Directory [file_a, file_b, notes_txt]) else sample_fs p)"

definition sample_argv :: "string list" where
  "sample_argv = [''analyze_baseline.py'', ''logs'', ''out/report.md'']"

definition argv_for :: "string \<Rightarrow> string list" where
  "argv_for logdir = [''analyze_baseline.py'', logdir, ''out/report.md'']"

definition sample_now :: string where
  "sample_now = ''2024-05-01 12:00:00''"

section \<open>Vocabulary of the statements\<close>

text \<open>
  The severity of a classified record: the score of the status stored in it (0 for a
  record that has none, which classification never produces).
\<close>

definition severity_of :: "dict \<Rightarrow> int" where
  "severity_of e = (case norm_status_of e of Inr st \<Rightarrow> score_status st | Inl _ \<Rightarrow> 0)"

text \<open>The worst status read off the counters, the invariant of the summary loop.\<close>

definition worst_agrees :: "summary \<Rightarrow> bool" where
  "worst_agrees s \<longleftrightarrow>
     0 \<le> WARN (tally s) \<and> 0 \<le> FAIL (tally s) \<and>
     (if 0 < FAIL (tally s) then worst s = ''FAIL''
      else if 0 < WARN (tally s) then worst s = ''WARN''
      else worst s = ''OK'')"

text \<open>
  The normalized status as the specification words it, from the \<open>status\<close> field of a
  record (\<open>None\<close> when the record has none): FAIL when the field is absent or not a
  string; otherwise the trimmed, upper-cased text when that is OK, WARN or FAIL, and FAIL
  in every other case.
\<close>

definition spec_status :: "pyval option \<Rightarrow> string" where
  "spec_status field =
     (case field of
        None \<Rightarrow> ''FAIL''
      | Some (PStr t) \<Rightarrow>
          (if str_upper (str_strip t) = ''OK'' then ''OK''
           else if str_upper (str_strip t) = ''WARN'' then ''WARN''
           else ''FAIL'')
      | Some _ \<Rightarrow> ''FAIL'')"

section \<open>The loops, as functions of their input\<close>

lemma read_lines_acc:
  "read_lines loads nm n ls rerr ents errs =
     (ents @ fst (read_lines loads nm n ls rerr [] []),
      errs @ snd (read_lines loads nm n ls rerr [] []))"
proof (induction ls arbitrary: n ents errs)
  case Nil
  show ?case by (simp split: option.splits)
next
  case (Cons l ls)
  show ?case
  proof (cases "str_strip l = []")
    case True
    then show ?thesis using Cons.IH [of "n + 1" ents errs] by simp
  next
    case False
    show ?thesis
    proof (cases "loads (str_strip l)")
      case (Loaded obj)
      with False show ?thesis
        using Cons.IH [of "n + 1" "ents @ [obj]" errs] Cons.IH [of "n + 1" "[obj]" "[]"]
        by simp
    next
      case (JSONDecodeError e)
      with False show ?thesis
        using Cons.IH [of "n + 1" ents "errs @ [decode_error nm n e]"]
          Cons.IH [of "n + 1" "[]" "[decode_error nm n e]"]
        by simp
    next
      case (Raised e)
      with False show ?thesis by simp
    qed
  qed
qed

lemma read_all_concat:
  "read_all loads lfs A E =
     (A @ concat (map (\<lambda>lf. fst (read_jsonl_file loads lf)) lfs),
      E @ concat (map (\<lambda>lf. snd (read_jsonl_file loads lf)) lfs))"
  by (induction lfs arbitrary: A E) (auto split: prod.splits)

lemma classify_dicts:
  "classify (map PDict ds) acc = Inr (acc @ map attach_status (filter (\<lambda>d. \<not> reserved d) ds))"
  by (induction ds arbitrary: acc) auto

lemma classify_Inr_dicts: "classify es acc = Inr ces \<Longrightarrow> \<exists>ds. es = map PDict ds"
proof (induction es arbitrary: acc)
  case Nil
  show ?case by simp
next
  case (Cons e es)
  from Cons.prems obtain d where e: "e = PDict d"
    by (cases e) auto
  with Cons.prems have "\<exists>acc'. classify es acc' = Inr ces"
    by (cases "reserved d") auto
  with Cons.IH obtain ds where "es = map PDict ds" by blast
  with e have "e # es = map PDict (d # ds)" by simp
  then show ?case by (rule exI)
qed

lemma classify_Inr:
  "classify es acc = Inr ces \<longleftrightarrow>
     (\<exists>ds. es = map PDict ds \<and> ces = acc @ map attach_status (filter (\<lambda>d. \<not> reserved d) ds))"
proof
  assume c: "classify es acc = Inr ces"
  then obtain ds where ds: "es = map PDict ds"
    using classify_Inr_dicts by blast
  with c classify_dicts [of ds acc]
  have "ces = acc @ map attach_status (filter (\<lambda>d. \<not> reserved d) ds)" by simp
  with ds show "\<exists>ds. es = map PDict ds \<and> ces = acc @ map attach_status (filter (\<lambda>d. \<not> reserved d) ds)"
    by (intro exI conjI)
next
  assume "\<exists>ds. es = map PDict ds \<and> ces = acc @ map attach_status (filter (\<lambda>d. \<not> reserved d) ds)"
  then obtain ds where "es = map PDict ds"
    and "ces = acc @ map attach_status (filter (\<lambda>d. \<not> reserved d) ds)" by (elim exE conjE)
  then show "classify es acc = Inr ces" by (simp add: classify_dicts)
qed

lemma classify_Inl:
  "classify es acc = Inl ex \<Longrightarrow> ex = AttributeError \<and> (\<exists>e\<in>set es. \<forall>d. e \<noteq> PDict d)"
  by (induction es arbitrary: acc) (auto split: pyval.splits if_splits)

lemma normalize_status_allowed: "normalize_status v \<in> ALLOWED_STATUS"
  by (auto simp: normalize_status_def ALLOWED_STATUS_def Let_def split: pyval.splits)

lemma norm_status_of_attach:
  "norm_status_of (attach_status d) = Inr (normalize_status (dict_get d ''status'' PNone))"
  by (simp add: norm_status_of_def attach_status_def dict_set_def update_conv')

lemma counts_incr_Inr:
  "counts_incr c st = Inr c' \<longleftrightarrow>
     (st = ''OK'' \<and> c' = c\<lparr>OK := OK c + 1\<rparr>) \<or>
     (st = ''WARN'' \<and> c' = c\<lparr>WARN := WARN c + 1\<rparr>) \<or>
     (st = ''FAIL'' \<and> c' = c\<lparr>FAIL := FAIL c + 1\<rparr>)"
  by (auto simp: counts_incr_def)

lemma summarize_Cons_Inr:
  assumes "summarize (e # es) s = Inr s'"
  obtains st c s1 where "norm_status_of e = Inr st" and "counts_incr (tally s) st = Inr c"
    and "tally s1 = c"
    and "worst s1 = (if score_status st > score_status (worst s) then st else worst s)"
    and "findings s1 = (if st = ''WARN'' \<or> st = ''FAIL'' then findings s @ [e] else findings s)"
    and "summarize es s1 = Inr s'"
proof -
  from assms obtain st where st: "norm_status_of e = Inr st"
    by (auto split: sum.splits)
  with assms obtain c where c: "counts_incr (tally s) st = Inr c"
    by (auto split: sum.splits)
  define s1 where "s1 =
    \<lparr>tally = c,
     worst = (if score_status st > score_status (worst s) then st else worst s),
     findings = (if st = ''WARN'' \<or> st = ''FAIL'' then findings s @ [e] else findings s)\<rparr>"
  from assms st c have "summarize es s1 = Inr s'" by (simp add: s1_def)
  moreover have "tally s1 = c"
    and "worst s1 = (if score_status st > score_status (worst s) then st else worst s)"
    and "findings s1 = (if st = ''WARN'' \<or> st = ''FAIL'' then findings s @ [e] else findings s)"
    by (simp_all add: s1_def)
  ultimately show thesis using st c that by blast
qed

lemma summarize_statuses:
  "summarize es s = Inr s' \<Longrightarrow> e \<in> set es \<Longrightarrow>
     norm_status_of e = Inr ''OK'' \<or> norm_status_of e = Inr ''WARN'' \<or>
     norm_status_of e = Inr ''FAIL''"
proof (induction es arbitrary: s)
  case Nil
  then show ?case by simp
next
  case (Cons x xs)
  from Cons.prems(1) obtain st c s1 where st: "norm_status_of x = Inr st"
    and c: "counts_incr (tally s) st = Inr c" and rest: "summarize xs s1 = Inr s'"
    by (rule summarize_Cons_Inr) blast
  show ?case
  proof (cases "e = x")
    case True
    with st c show ?thesis by (auto simp: counts_incr_Inr)
  next
    case False
    with Cons.prems(2) have "e \<in> set xs" by simp
    with Cons.IH rest show ?thesis by blast
  qed
qed

lemma summarize_tally:
  "summarize es s = Inr s' \<Longrightarrow>
     OK (tally s') = OK (tally s) + int (length (filter (\<lambda>e. norm_status_of e = Inr ''OK'') es)) \<and>
     WARN (tally s') = WARN (tally s) + int (length (filter (\<lambda>e. norm_status_of e = Inr ''WARN'') es)) \<and>
     FAIL (tally s') = FAIL (tally s) + int (length (filter (\<lambda>e. norm_status_of e = Inr ''FAIL'') es))"
proof (induction es arbitrary: s)
  case Nil
  then show ?case by simp
next
  case (Cons x xs)
  from Cons.prems obtain st c s1 where st: "norm_status_of x = Inr st"
    and c: "counts_incr (tally s) st = Inr c" and s1: "tally s1 = c"
    and rest: "summarize xs s1 = Inr s'"
    by (rule summarize_Cons_Inr) blast
  from Cons.IH [OF rest] s1 st c show ?case
    by (auto simp: counts_incr_Inr)
qed

lemma summarize_findings:
  "summarize es s = Inr s' \<Longrightarrow>
     findings s' = findings s @
       filter (\<lambda>e. norm_status_of e = Inr ''WARN'' \<or> norm_status_of e = Inr ''FAIL'') es"
proof (induction es arbitrary: s)
  case Nil
  then show ?case by simp
next
  case (Cons x xs)
  from Cons.prems obtain st c s1 where st: "norm_status_of x = Inr st"
    and s1: "findings s1 = (if st = ''WARN'' \<or> st = ''FAIL'' then findings s @ [x] else findings s)"
    and rest: "summarize xs s1 = Inr s'"
    by (rule summarize_Cons_Inr) blast
  from Cons.IH [OF rest] s1 st show ?case by auto
qed

lemma summarize_total:
  "(\<And>e. e \<in> set es \<Longrightarrow> \<exists>st\<in>ALLOWED_STATUS. norm_status_of e = Inr st) \<Longrightarrow>
     \<exists>s'. summarize es s = Inr s'"
proof (induction es arbitrary: s)
  case Nil
  show ?case by simp
next
  case (Cons x xs)
  from Cons.prems [of x] obtain st where st: "st \<in> ALLOWED_STATUS" "norm_status_of x = Inr st"
    by auto
  then obtain c where c: "counts_incr (tally s) st = Inr c"
    by (auto simp: ALLOWED_STATUS_def counts_incr_def)
  have "\<exists>s'. summarize xs
           \<lparr>tally = c,
            worst = (if score_status st > score_status (worst s) then st else worst s),
            findings = (if st = ''WARN'' \<or> st = ''FAIL'' then findings s @ [x]
                        else findings s)\<rparr> = Inr s'"
    by (rule Cons.IH) (simp add: Cons.prems)
  with st c show ?case by simp
qed

lemma score_status_simps [simp]:
  "score_status ''OK'' = 0" "score_status ''WARN'' = 1" "score_status ''FAIL'' = 2"
  by (simp_all add: score_status_def)

lemma summarize_worst_agrees:
  "summarize es s = Inr s' \<Longrightarrow> worst_agrees s \<Longrightarrow> worst_agrees s'"
proof (induction es arbitrary: s)
  case Nil
  then show ?case by simp
next
  case (Cons x xs)
  from Cons.prems(1) obtain st c s1 where "norm_status_of x = Inr st"
    and c: "counts_incr (tally s) st = Inr c"
    and t: "tally s1 = c"
    and w: "worst s1 = (if score_status st > score_status (worst s) then st else worst s)"
    and rest: "summarize xs s1 = Inr s'"
    by (rule summarize_Cons_Inr) blast
  from c t w Cons.prems(2) have "worst_agrees s1"
    by (auto simp: counts_incr_Inr worst_agrees_def split: if_splits)
  with Cons.IH rest show ?case by blast
qed

lemma summarize_worst_max:
  "summarize es s = Inr s' \<Longrightarrow>
     score_status (worst s') = Max (insert (score_status (worst s)) (severity_of ` set es))"
proof (induction es arbitrary: s)
  case Nil
  then show ?case by simp
next
  case (Cons x xs)
  from Cons.prems(1) obtain st c s1 where st: "norm_status_of x = Inr st"
    and w: "worst s1 = (if score_status st > score_status (worst s) then st else worst s)"
    and rest: "summarize xs s1 = Inr s'"
    by (rule summarize_Cons_Inr) blast
  from w have "score_status (worst s1) = max (severity_of x) (score_status (worst s))"
    by (simp add: severity_of_def st)
  with Cons.IH [OF rest]
  have "score_status (worst s') =
      Max (insert (max (severity_of x) (score_status (worst s))) (severity_of ` set xs))"
    by simp
  also have "\<dots> = Max (insert (score_status (worst s)) (severity_of ` set (x # xs)))"
  proof (cases "xs = []")
    case True
    then show ?thesis by (simp add: max.commute)
  next
    case False
    then show ?thesis by (simp add: max.assoc max.commute max.left_commute)
  qed
  finally show ?case .
qed

lemma sort_key_name_perm:
  assumes "mset d1 = mset d2" and "distinct (map name d1)"
  shows "sort_key name (filter P d1) = sort_key name (filter P d2)"
proof (rule sort_key_inj_key_eq)
  from assms(1) show "mset (filter P d1) = mset (sort_key name (filter P d2))"
    by simp
  from assms(2) have "inj_on name (set d1)"
    by (simp add: distinct_map)
  then show "inj_on name (set (filter P d1))"
    by (rule inj_on_subset) auto
  show "sorted (map name (sort_key name (filter P d2)))"
    by (rule sorted_sort_key)
qed

lemma main_CompletedE:
  assumes "main loads repr fs now argv = Completed r"
  obtains entries ds where "length argv = 3"
    and "fs (argv ! 1) = Some (Directory entries)"
    and "log_files r = sort_key name (filter (\<lambda>lf. glob_jsonl (name lf)) entries)"
    and "log_files r \<noteq> []"
    and "all_entries r = concat (map (\<lambda>lf. fst (read_jsonl_file loads lf)) (log_files r))"
    and "all_errors r = concat (map (\<lambda>lf. snd (read_jsonl_file loads lf)) (log_files r))"
    and "all_entries r = map PDict ds"
    and "check_entries r = map attach_status (filter (\<lambda>d. \<not> reserved d) ds)"
    and "summarize (check_entries r)
           \<lparr>tally = \<lparr>OK = 0, WARN = 0, FAIL = 0\<rparr>, worst = ''OK'', findings = []\<rparr>
         = Inr (result r)"
    and "risk r = risk_level (FAIL (tally (result r)))"
    and "report r =
           write_report repr now (log_files r) (length (check_entries r)) (result r) (risk r)
             (all_errors r)"
    and "exit_code r = (if FAIL (tally (result r)) = 0 then 0 else 1)"
proof -
  from assms have len: "length argv = 3"
    by (auto simp: main_def split: if_splits)
  with assms obtain entries where dir: "fs (argv ! 1) = Some (Directory entries)"
    by (auto simp: main_def split: option.splits node.splits)
  define lfs where "lfs = sort_key name (filter (\<lambda>lf. glob_jsonl (name lf)) entries)"
  from assms len dir have ne: "lfs \<noteq> []"
    by (auto simp: main_def lfs_def Let_def split: if_splits)
  obtain ents errs where ra: "read_all loads lfs [] [] = (ents, errs)"
    by (cases "read_all loads lfs [] []")
  with assms len dir ne obtain ces where cl: "classify ents [] = Inr ces"
    by (auto simp: main_def lfs_def Let_def split: sum.splits)
  with assms len dir ne ra obtain s where
    su: "summarize ces \<lparr>tally = \<lparr>OK = 0, WARN = 0, FAIL = 0\<rparr>, worst = ''OK'', findings = []\<rparr> = Inr s"
    by (auto simp: main_def lfs_def Let_def split: sum.splits)
  from assms len dir ne ra cl su have r: "r =
      \<lparr>log_files = lfs, all_entries = ents, all_errors = errs,
       check_entries = ces, result = s, risk = risk_level (FAIL (tally s)),
       report = write_report repr now lfs (length ces) s (risk_level (FAIL (tally s))) errs,
       exit_code = (if FAIL (tally s) = 0 then 0 else 1)\<rparr>"
    by (simp add: main_def lfs_def Let_def)
  from cl obtain ds where ds: "ents = map PDict ds"
    and ces: "ces = map attach_status (filter (\<lambda>d. \<not> reserved d) ds)"
    by (auto simp: classify_Inr)
  from ra have ents: "ents = concat (map (\<lambda>lf. fst (read_jsonl_file loads lf)) lfs)"
    and errs: "errs = concat (map (\<lambda>lf. snd (read_jsonl_file loads lf)) lfs)"
    by (simp_all add: read_all_concat)
  show thesis
  proof (rule that [of entries ds])
    show "length argv = 3" by (rule len)
    show "fs (argv ! 1) = Some (Directory entries)" by (rule dir)
    show "log_files r = sort_key name (filter (\<lambda>lf. glob_jsonl (name lf)) entries)"
      by (simp add: r lfs_def)
    show "log_files r \<noteq> []" using ne by (simp add: r)
    show "all_entries r = concat (map (\<lambda>lf. fst (read_jsonl_file loads lf)) (log_files r))"
      using ents by (simp add: r)
    show "all_errors r = concat (map (\<lambda>lf. snd (read_jsonl_file loads lf)) (log_files r))"
      using errs by (simp add: r)
    show "all_entries r = map PDict ds" using ds by (simp add: r)
    show "check_entries r = map attach_status (filter (\<lambda>d. \<not> reserved d) ds)"
      using ces by (simp add: r)
    show "summarize (check_entries r)
           \<lparr>tally = \<lparr>OK = 0, WARN = 0, FAIL = 0\<rparr>, worst = ''OK'', findings = []\<rparr>
         = Inr (result r)" using su by (simp add: r)
    show "risk r = risk_level (FAIL (tally (result r)))" by (simp add: r)
    show "report r =
           write_report repr now (log_files r) (length (check_entries r)) (result r) (risk r)
             (all_errors r)" by (simp add: r)
    show "exit_code r = (if FAIL (tally (result r)) = 0 then 0 else 1)" by (simp add: r)
  qed
qed

lemma reserved_attach_status [simp]: "reserved (attach_status d) = reserved d"
  by (simp add: reserved_def attach_status_def dict_set_def dict_get_def update_conv')

lemma three_way_length:
  "(\<And>x. x \<in> set xs \<Longrightarrow> f x = a \<or> f x = b \<or> f x = c) \<Longrightarrow> a \<noteq> b \<Longrightarrow> a \<noteq> c \<Longrightarrow> b \<noteq> c \<Longrightarrow>
     length (filter (\<lambda>x. f x = a) xs) + length (filter (\<lambda>x. f x = b) xs)
       + length (filter (\<lambda>x. f x = c) xs) = length xs"
  by (induction xs) auto

text \<open>The sample run reaches the end of \<open>main\<close>.\<close>

lemma sample_run:
  "case main sample_loads sample_repr sample_fs sample_now sample_argv of
     Completed r \<Rightarrow> True | _ \<Rightarrow> False"
  by code_simp

lemma sample_completes:
  "\<exists>r. main sample_loads sample_repr sample_fs sample_now sample_argv = Completed r"
  using sample_run by (auto split: outcome.splits)

section \<open>The claims\<close>

text \<open>
  Claim C1. In every run that completes, every decoded record is an object; each record
  that is counted carries the normalized status OK, WARN or FAIL; each counter is the
  number of counted records with its status, so the three add up to the number of
  decoded records whose \<open>check\<close> field is neither \<open>run_start\<close> nor \<open>run_summary\<close>; and
  no record with such a \<open>check\<close> field is counted or is a finding, whatever its
  \<open>status\<close> field holds.
\<close>

theorem tallies_cover_nonreserved_records:
  assumes "main loads repr fs now argv = Completed r"
  shows "\<exists>ds. all_entries r = map PDict ds \<and>
    all_entries r = concat (map (\<lambda>lf. fst (read_jsonl_file loads lf)) (log_files r)) \<and>
    (\<forall>e\<in>set (check_entries r).
       norm_status_of e = Inr ''OK'' \<or> norm_status_of e = Inr ''WARN'' \<or>
       norm_status_of e = Inr ''FAIL'') \<and>
    OK (tally (result r)) =
      int (length (filter (\<lambda>e. norm_status_of e = Inr ''OK'') (check_entries r))) \<and>
    WARN (tally (result r)) =
      int (length (filter (\<lambda>e. norm_status_of e = Inr ''WARN'') (check_entries r))) \<and>
    FAIL (tally (result r)) =
      int (length (filter (\<lambda>e. norm_status_of e = Inr ''FAIL'') (check_entries r))) \<and>
    OK (tally (result r)) + WARN (tally (result r)) + FAIL (tally (result r)) =
      int (length (filter (\<lambda>d. \<not> reserved d) ds)) \<and>
    length (check_entries r) = length (filter (\<lambda>d. \<not> reserved d) ds) \<and>
    (\<forall>e\<in>set (check_entries r). \<not> reserved e) \<and>
    (\<forall>e\<in>set (findings (result r)). e \<in> set (check_entries r) \<and> \<not> reserved e)"
proof -
  from assms obtain ds where ents: "all_entries r = map PDict ds"
    and read: "all_entries r = concat (map (\<lambda>lf. fst (read_jsonl_file loads lf)) (log_files r))"
    and ces: "check_entries r = map attach_status (filter (\<lambda>d. \<not> reserved d) ds)"
    and su: "summarize (check_entries r)
           \<lparr>tally = \<lparr>OK = 0, WARN = 0, FAIL = 0\<rparr>, worst = ''OK'', findings = []\<rparr>
         = Inr (result r)"
    by (rule main_CompletedE) blast
  have st: "norm_status_of e = Inr ''OK'' \<or> norm_status_of e = Inr ''WARN'' \<or>
       norm_status_of e = Inr ''FAIL''" if "e \<in> set (check_entries r)" for e
    using su that by (rule summarize_statuses)
  from summarize_tally [OF su]
  have ok: "OK (tally (result r)) =
      int (length (filter (\<lambda>e. norm_status_of e = Inr ''OK'') (check_entries r)))"
    and warn: "WARN (tally (result r)) =
      int (length (filter (\<lambda>e. norm_status_of e = Inr ''WARN'') (check_entries r)))"
    and fail: "FAIL (tally (result r)) =
      int (length (filter (\<lambda>e. norm_status_of e = Inr ''FAIL'') (check_entries r)))"
    by simp_all
  have len: "length (check_entries r) = length (filter (\<lambda>d. \<not> reserved d) ds)"
    by (simp add: ces)
  have "length (filter (\<lambda>e. norm_status_of e = Inr ''OK'') (check_entries r))
      + length (filter (\<lambda>e. norm_status_of e = Inr ''WARN'') (check_entries r))
      + length (filter (\<lambda>e. norm_status_of e = Inr ''FAIL'') (check_entries r))
      = length (check_entries r)"
    by (rule three_way_length) (simp_all add: st)
  with ok warn fail len
  have total: "OK (tally (result r)) + WARN (tally (result r)) + FAIL (tally (result r)) =
      int (length (filter (\<lambda>d. \<not> reserved d) ds))"
    by linarith
  have nres: "\<not> reserved e" if "e \<in> set (check_entries r)" for e
    using that by (auto simp: ces)
  have fnd: "e \<in> set (check_entries r) \<and> \<not> reserved e" if "e \<in> set (findings (result r))" for e
    using that summarize_findings [OF su] nres by auto
  show ?thesis
    by (rule exI [of _ ds]) (use ents read st ok warn fail total len nres fnd in blast)
qed

theorem tallies_cover_nonreserved_records_witness:
  "\<exists>r ds. main sample_loads sample_repr sample_fs sample_now sample_argv = Completed r \<and>
     all_entries r = map PDict ds \<and>
     OK (tally (result r)) + WARN (tally (result r)) + FAIL (tally (result r)) =
       int (length (filter (\<lambda>d. \<not> reserved d) ds))"
proof -
  from sample_completes obtain r
    where r: "main sample_loads sample_repr sample_fs sample_now sample_argv = Completed r" ..
  from tallies_cover_nonreserved_records [OF r] r show ?thesis by blast
qed

text \<open>The counters of two sample runs.\<close>

lemma sample_b_run:
  "case main sample_loads sample_repr sample_fs sample_now (argv_for ''logs_b'') of
     Completed r \<Rightarrow> tally (result r) = \<lparr>OK = 0, WARN = 1, FAIL = 1\<rparr> | _ \<Rightarrow> False"
  by code_simp

lemma sample_a_tally:
  "case main sample_loads sample_repr sample_fs sample_now sample_argv of
     Completed r \<Rightarrow> tally (result r) = \<lparr>OK = 1, WARN = 0, FAIL = 1\<rparr> | _ \<Rightarrow> False"
  by code_simp

text \<open>
  Claim C5. In every run that completes, the worst status is FAIL exactly when the FAIL
  counter is positive, WARN exactly when the WARN counter is positive and the FAIL
  counter is zero, and OK exactly when both are zero; and its score is the greatest
  severity among the classified records under the order OK < WARN < FAIL (the score of
  OK when there is none).
\<close>

theorem worst_status_from_counts:
  assumes "main loads repr fs now argv = Completed r"
  shows "(worst (result r) = ''FAIL'' \<longleftrightarrow> 0 < FAIL (tally (result r))) \<and>
    (worst (result r) = ''WARN'' \<longleftrightarrow>
       0 < WARN (tally (result r)) \<and> FAIL (tally (result r)) = 0) \<and>
    (worst (result r) = ''OK'' \<longleftrightarrow>
       WARN (tally (result r)) = 0 \<and> FAIL (tally (result r)) = 0) \<and>
    score_status (worst (result r)) = Max (insert 0 (severity_of ` set (check_entries r)))"
proof -
  let ?init = "\<lparr>tally = \<lparr>OK = 0, WARN = 0, FAIL = 0\<rparr>, worst = ''OK'', findings = []\<rparr>"
  from assms have su: "summarize (check_entries r) ?init = Inr (result r)"
    by (rule main_CompletedE)
  have "worst_agrees ?init"
    by (simp add: worst_agrees_def)
  with su have "worst_agrees (result r)"
    by (rule summarize_worst_agrees)
  then have cases: "(worst (result r) = ''FAIL'' \<longleftrightarrow> 0 < FAIL (tally (result r))) \<and>
    (worst (result r) = ''WARN'' \<longleftrightarrow>
       0 < WARN (tally (result r)) \<and> FAIL (tally (result r)) = 0) \<and>
    (worst (result r) = ''OK'' \<longleftrightarrow>
       WARN (tally (result r)) = 0 \<and> FAIL (tally (result r)) = 0)"
    by (auto simp: worst_agrees_def split: if_splits)
  from summarize_worst_max [OF su]
  have "score_status (worst (result r)) = Max (insert 0 (severity_of ` set (check_entries r)))"
    by simp
  with cases show ?thesis by blast
qed

theorem worst_status_from_counts_witness:
  "\<exists>r. main sample_loads sample_repr sample_fs sample_now sample_argv = Completed r \<and>
     FAIL (tally (result r)) = 1 \<and> worst (result r) = ''FAIL'' \<and>
     Max (insert 0 (severity_of ` set (check_entries r))) = 2"
proof -
  from sample_a_tally obtain r
    where r: "main sample_loads sample_repr sample_fs sample_now sample_argv = Completed r"
      and t: "tally (result r) = \<lparr>OK = 1, WARN = 0, FAIL = 1\<rparr>"
    by (auto split: outcome.splits)
  from worst_status_from_counts [OF r] t have w: "worst (result r) = ''FAIL''"
    and m: "score_status (worst (result r)) = Max (insert 0 (severity_of ` set (check_entries r)))"
    by auto
  from m have "Max (insert 0 (severity_of ` set (check_entries r))) = 2"
    by (simp add: w)
  with r t w show ?thesis by simp
qed

text \<open>
  Claim C6. In every run that completes, the risk label is determined by the FAIL counter
  alone: the lowest label when the counter is 0, the medium label when it is 1, the
  highest label when it is 2 or more (the counter is never negative); two completed runs
  with the same FAIL counter get the same label, whatever their WARN counters are.
\<close>

theorem risk_from_fail_count:
  assumes "main loads repr fs now argv = Completed r"
    and "main loads' repr' fs' now' argv' = Completed r'"
  shows "0 \<le> FAIL (tally (result r)) \<and>
    (FAIL (tally (result r)) = 0 \<longrightarrow> risk r = risk_low) \<and>
    (FAIL (tally (result r)) = 1 \<longrightarrow> risk r = risk_medium) \<and>
    (2 \<le> FAIL (tally (result r)) \<longrightarrow> risk r = risk_high) \<and>
    (FAIL (tally (result r)) = FAIL (tally (result r')) \<longrightarrow> risk r = risk r')"
proof -
  from assms(1) have r: "risk r = risk_level (FAIL (tally (result r)))"
    by (rule main_CompletedE)
  from assms(2) have r': "risk r' = risk_level (FAIL (tally (result r')))"
    by (rule main_CompletedE)
  from assms(1) have "summarize (check_entries r)
      \<lparr>tally = \<lparr>OK = 0, WARN = 0, FAIL = 0\<rparr>, worst = ''OK'', findings = []\<rparr> = Inr (result r)"
    by (rule main_CompletedE)
  from summarize_tally [OF this] have "0 \<le> FAIL (tally (result r))" by simp
  with r r' show ?thesis by (auto simp: risk_level_def)
qed

theorem risk_from_fail_count_witness:
  "\<exists>r r'. main sample_loads sample_repr sample_fs sample_now sample_argv = Completed r \<and>
     main sample_loads sample_repr sample_fs sample_now (argv_for ''logs_b'') = Completed r' \<and>
     WARN (tally (result r)) = 0 \<and> WARN (tally (result r')) = 1 \<and>
     FAIL (tally (result r)) = 1 \<and> FAIL (tally (result r')) = 1 \<and>
     risk r = risk_medium \<and> risk r' = risk_medium"
proof -
  from sample_a_tally obtain r
    where r: "main sample_loads sample_repr sample_fs sample_now sample_argv = Completed r"
      and t: "tally (result r) = \<lparr>OK = 1, WARN = 0, FAIL = 1\<rparr>"
    by (auto split: outcome.splits)
  from sample_b_run obtain r'
    where r': "main sample_loads sample_repr sample_fs sample_now (argv_for ''logs_b'') = Completed r'"
      and t': "tally (result r') = \<lparr>OK = 0, WARN = 1, FAIL = 1\<rparr>"
    by (auto split: outcome.splits)
  from risk_from_fail_count [OF r r'] t t' have "risk r = risk_medium" "risk r = risk r'"
    by auto
  with r r' t t' show ?thesis by simp
qed

lemma normalize_status_spec:
  "normalize_status (dict_get d ''status'' PNone) = spec_status (map_of d ''status'')"
  by (auto simp: normalize_status_def spec_status_def dict_get_def ALLOWED_STATUS_def Let_def
      split: option.splits pyval.splits)

text \<open>
  Claim C2. The status the script computes from a record is the one the specification
  words: FAIL when the \<open>status\<close> field is absent or not a string, otherwise the trimmed,
  upper-cased text when that is OK, WARN or FAIL, and FAIL in every other case. In a run
  that completes, every decoded record that is not reserved carries that status. The
  strings \<open>ok\<close>, \<open> Ok \<close> and \<open>OK\<close> give OK; the number 42, a missing field and \<open>banana\<close>
  give FAIL.
\<close>

theorem normalized_status_as_specified:
  assumes "main loads repr fs now argv = Completed r"
  shows "\<exists>ds. all_entries r = map PDict ds \<and>
    (\<forall>d. normalize_status (dict_get d ''status'' PNone) = spec_status (map_of d ''status'')) \<and>
    map norm_status_of (check_entries r) =
      map (\<lambda>d. Inr (spec_status (map_of d ''status''))) (filter (\<lambda>d. \<not> reserved d) ds) \<and>
    normalize_status (PStr ''ok'') = ''OK'' \<and>
    normalize_status (PStr '' Ok '') = ''OK'' \<and>
    normalize_status (PStr ''OK'') = ''OK'' \<and>
    normalize_status (PInt 42) = ''FAIL'' \<and>
    normalize_status (dict_get [] ''status'' PNone) = ''FAIL'' \<and>
    normalize_status (PStr ''banana'') = ''FAIL''"
proof -
  from assms obtain ds where ents: "all_entries r = map PDict ds"
    and ces: "check_entries r = map attach_status (filter (\<lambda>d. \<not> reserved d) ds)"
    by (rule main_CompletedE) blast
  have "map norm_status_of (check_entries r) =
      map (\<lambda>d. Inr (spec_status (map_of d ''status''))) (filter (\<lambda>d. \<not> reserved d) ds)"
    by (simp add: ces norm_status_of_attach normalize_status_spec)
  moreover have "normalize_status (PStr ''ok'') = ''OK''"
    and "normalize_status (PStr '' Ok '') = ''OK''"
    and "normalize_status (PStr ''OK'') = ''OK''"
    and "normalize_status (PStr ''banana'') = ''FAIL''"
    by code_simp+
  moreover have "normalize_status (PInt 42) = ''FAIL''"
    and "normalize_status (dict_get [] ''status'' PNone) = ''FAIL''"
    by (simp_all add: normalize_status_def dict_get_def)
  ultimately show ?thesis using ents normalize_status_spec by blast
qed

theorem normalized_status_as_specified_witness:
  "\<exists>r ds. main sample_loads sample_repr sample_fs sample_now sample_argv = Completed r \<and>
     all_entries r = map PDict ds \<and>
     map norm_status_of (check_entries r) =
       map (\<lambda>d. Inr (spec_status (map_of d ''status''))) (filter (\<lambda>d. \<not> reserved d) ds) \<and>
     map norm_status_of (check_entries r) = [Inr ''FAIL'', Inr ''OK'']"
proof -
  have "case main sample_loads sample_repr sample_fs sample_now sample_argv of
     Completed r \<Rightarrow> map norm_status_of (check_entries r) = [Inr ''FAIL'', Inr ''OK'']
   | _ \<Rightarrow> False"
    by code_simp
  then obtain r
    where r: "main sample_loads sample_repr sample_fs sample_now sample_argv = Completed r"
      and v: "map norm_status_of (check_entries r) = [Inr ''FAIL'', Inr ''OK'']"
    by (auto split: outcome.splits)
  from normalized_status_as_specified [OF r] obtain ds
    where a: "all_entries r = map PDict ds"
      and b: "map norm_status_of (check_entries r) =
        map (\<lambda>d. Inr (spec_status (map_of d ''status''))) (filter (\<lambda>d. \<not> reserved d) ds)"
    by auto
  show ?thesis
    by (rule exI [of _ r], rule exI [of _ ds]) (intro conjI r a b v)
qed

text \<open>
  A read error at the end of a scan that the parser does not leave early adds one error
  to what the scan gives without it; a scan of two pieces is the scan of the second from
  where the first ends.
\<close>

lemma read_lines_no_error:
  "read_lines loads nm n ls (Some e) ents errs =
     (case read_lines loads nm n ls None ents errs of (es, rs) \<Rightarrow> (es, rs @ [could_not_read nm e]))"
  if "\<And>l m. l \<in> set ls \<Longrightarrow> str_strip l \<noteq> [] \<Longrightarrow> loads (str_strip l) \<noteq> Raised m"
  using that
proof (induction ls arbitrary: n ents errs)
  case Nil
  show ?case by simp
next
  case (Cons l ls)
  have ih: "read_lines loads nm n' ls (Some e) ents' errs' =
     (case read_lines loads nm n' ls None ents' errs' of (es, rs) \<Rightarrow> (es, rs @ [could_not_read nm e]))"
    for n' ents' errs'
    by (rule Cons.IH) (simp add: Cons.prems)
  show ?case
  proof (cases "str_strip l = []")
    case True
    then show ?thesis by (simp add: ih)
  next
    case False
    with Cons.prems [of l] have "loads (str_strip l) \<noteq> Raised m" for m by simp
    with False show ?thesis
      by (cases "loads (str_strip l)") (auto simp: ih)
  qed
qed

lemma read_lines_append:
  assumes "\<And>l m. l \<in> set pre \<Longrightarrow> str_strip l \<noteq> [] \<Longrightarrow> loads (str_strip l) \<noteq> Raised m"
  shows "read_lines loads nm n (pre @ post) rerr ents errs =
     (case read_lines loads nm n pre None ents errs of
        (es, rs) \<Rightarrow> read_lines loads nm (n + int (length pre)) post rerr es rs)"
  using assms
proof (induction pre arbitrary: n ents errs)
  case Nil
  show ?case by simp
next
  case (Cons l ls)
  have ih: "read_lines loads nm n' (ls @ post) rerr ents' errs' =
     (case read_lines loads nm n' ls None ents' errs' of
        (es, rs) \<Rightarrow> read_lines loads nm (n' + int (length ls)) post rerr es rs)"
    for n' ents' errs'
    by (rule Cons.IH) (simp add: Cons.prems)
  have n: "n + 1 + int (length ls) = n + int (length (l # ls))" by simp
  show ?case
  proof (cases "str_strip l = []")
    case True
    then show ?thesis by (simp add: ih ac_simps split: prod.splits)
  next
    case False
    with Cons.prems [of l] have "loads (str_strip l) \<noteq> Raised m" for m by simp
    with False show ?thesis
      by (cases "loads (str_strip l)") (auto simp: ih ac_simps split: prod.splits)
  qed
qed

text \<open>
  A read that fails after some lines were delivered keeps what those lines gave, as long
  as none of them made the parser raise anything but \<open>JSONDecodeError\<close>, and adds the
  file-level error after it.
\<close>

lemma read_failure_after_lines:
  assumes "read_error f = Some e"
    and "\<And>l m. l \<in> set (lines f) \<Longrightarrow> str_strip l \<noteq> [] \<Longrightarrow> loads (str_strip l) \<noteq> Raised m"
  shows "read_jsonl_file loads f =
     (fst (read_jsonl_file loads (f\<lparr>read_error := None\<rparr>)),
      snd (read_jsonl_file loads (f\<lparr>read_error := None\<rparr>))
        @ [name f @ '': Could not read file: '' @ e])"
proof -
  have "read_lines loads (name f) 1 (lines f) (Some e) [] [] =
     (case read_lines loads (name f) 1 (lines f) None [] [] of
        (es, rs) \<Rightarrow> (es, rs @ [could_not_read (name f) e]))"
    by (rule read_lines_no_error) (rule assms(2))
  with assms(1) show ?thesis
    by (simp add: read_jsonl_file_def could_not_read_def split: prod.splits)
qed

lemma read_failure_after_first_line:
  "read_jsonl_file sample_loads file_c =
     ([PDict [(''check'', PStr ''y''), (''status'', PStr ''OK'')]],
      [''c.jsonl: Could not read file: [Errno 5] Input/output error''])"
  by code_simp

text \<open>
  Claim C4. A file that cannot be opened or read, one whose iteration raises before it
  delivers a line, gets exactly one decode error, made of the file's name and the text
  of the I/O error, and gives no record. The run goes on: the files before and after it
  in the sorted list contribute their records and errors, in order, and these are the
  records and errors of a run that completes.
\<close>

theorem unreadable_file_one_error_no_records:
  assumes "read_error f = Some e" and "lines f = []"
  shows "read_jsonl_file loads f = ([], [name f @ '': Could not read file: '' @ e]) \<and>
    read_all loads (before @ f # after) [] [] =
      (concat (map (\<lambda>lf. fst (read_jsonl_file loads lf)) before)
         @ concat (map (\<lambda>lf. fst (read_jsonl_file loads lf)) after),
       concat (map (\<lambda>lf. snd (read_jsonl_file loads lf)) before)
         @ [name f @ '': Could not read file: '' @ e]
         @ concat (map (\<lambda>lf. snd (read_jsonl_file loads lf)) after)) \<and>
    (\<forall>r. main loads repr fs now argv = Completed r \<longrightarrow>
       log_files r = before @ f # after \<longrightarrow>
       all_entries r =
         concat (map (\<lambda>lf. fst (read_jsonl_file loads lf)) before)
           @ concat (map (\<lambda>lf. fst (read_jsonl_file loads lf)) after) \<and>
       all_errors r =
         concat (map (\<lambda>lf. snd (read_jsonl_file loads lf)) before)
           @ [name f @ '': Could not read file: '' @ e]
           @ concat (map (\<lambda>lf. snd (read_jsonl_file loads lf)) after))"
proof (intro conjI allI impI)
  from assms show f: "read_jsonl_file loads f = ([], [name f @ '': Could not read file: '' @ e])"
    by (simp add: read_jsonl_file_def could_not_read_def)
  then show "read_all loads (before @ f # after) [] [] =
      (concat (map (\<lambda>lf. fst (read_jsonl_file loads lf)) before)
         @ concat (map (\<lambda>lf. fst (read_jsonl_file loads lf)) after),
       concat (map (\<lambda>lf. snd (read_jsonl_file loads lf)) before)
         @ [name f @ '': Could not read file: '' @ e]
         @ concat (map (\<lambda>lf. snd (read_jsonl_file loads lf)) after))"
    by (simp add: read_all_concat)
  fix r
  assume r: "main loads repr fs now argv = Completed r"
    and lf: "log_files r = before @ f # after"
  from r have "all_entries r = concat (map (\<lambda>lf. fst (read_jsonl_file loads lf)) (log_files r))"
    by (rule main_CompletedE)
  with f lf show "all_entries r =
         concat (map (\<lambda>lf. fst (read_jsonl_file loads lf)) before)
           @ concat (map (\<lambda>lf. fst (read_jsonl_file loads lf)) after)"
    by simp
  from r have "all_errors r = concat (map (\<lambda>lf. snd (read_jsonl_file loads lf)) (log_files r))"
    by (rule main_CompletedE)
  with f lf show "all_errors r =
         concat (map (\<lambda>lf. snd (read_jsonl_file loads lf)) before)
           @ [name f @ '': Could not read file: '' @ e]
           @ concat (map (\<lambda>lf. snd (read_jsonl_file loads lf)) after)"
    by simp
qed

theorem unreadable_file_one_error_no_records_witness:
  "read_error file_d = Some ''[Errno 13] Permission denied'' \<and> lines file_d = [] \<and>
   read_jsonl_file sample_loads file_d =
     ([], [''d.jsonl: Could not read file: [Errno 13] Permission denied'']) \<and>
   (\<exists>r. main sample_loads sample_repr sample_fs sample_now (argv_for ''logs_d'') = Completed r \<and>
      log_files r = [file_a] @ file_d # [] \<and>
      length (all_entries r) = 3 \<and>
      all_errors r =
        [''a.jsonl:3 JSONDecodeError: Expecting value: line 1 column 1 (char 0)'',
         ''d.jsonl: Could not read file: [Errno 13] Permission denied''])"
proof -
  have d: "read_error file_d = Some ''[Errno 13] Permission denied''" and l: "lines file_d = []"
    and n: "name file_d = ''d.jsonl''"
    by (simp_all add: file_d_def)
  note inst = unreadable_file_one_error_no_records
    [OF d l, where loads = sample_loads and before = "[file_a]" and after = "[]"
       and repr = sample_repr and fs = sample_fs and now = sample_now
       and argv = "argv_for ''logs_d''"]
  from inst n have 1: "read_jsonl_file sample_loads file_d =
     ([], [''d.jsonl: Could not read file: [Errno 13] Permission denied''])"
    by simp
  have "case main sample_loads sample_repr sample_fs sample_now (argv_for ''logs_d'') of
      Completed r \<Rightarrow> log_files r = [file_a] @ file_d # [] | _ \<Rightarrow> False"
    by code_simp
  then obtain r
    where r: "main sample_loads sample_repr sample_fs sample_now (argv_for ''logs_d'') = Completed r"
      and lf: "log_files r = [file_a] @ file_d # []"
    by (auto split: outcome.splits)
  have a: "read_jsonl_file sample_loads file_a =
     ([PDict [(''check'', PStr ''run_start'')],
       PDict [(''check'', PStr ''x''), (''status'', PStr ''fail''), (''host'', PStr ''h1'')],
       PDict [(''check'', PStr ''y''), (''status'', PStr ''OK'')]],
      [''a.jsonl:3 JSONDecodeError: Expecting value: line 1 column 1 (char 0)''])"
    by code_simp
  from inst r lf have "all_entries r =
         concat (map (\<lambda>lf. fst (read_jsonl_file sample_loads lf)) [file_a])
           @ concat (map (\<lambda>lf. fst (read_jsonl_file sample_loads lf)) [])"
    and "all_errors r =
         concat (map (\<lambda>lf. snd (read_jsonl_file sample_loads lf)) [file_a])
           @ [name file_d @ '': Could not read file: '' @ ''[Errno 13] Permission denied'']
           @ concat (map (\<lambda>lf. snd (read_jsonl_file sample_loads lf)) [])"
    by blast+
  then have 2: "length (all_entries r) = 3"
    and 3: "all_errors r =
        [''a.jsonl:3 JSONDecodeError: Expecting value: line 1 column 1 (char 0)'',
         ''d.jsonl: Could not read file: [Errno 13] Permission denied'']"
    by (simp_all add: a n)
  have "\<exists>r. main sample_loads sample_repr sample_fs sample_now (argv_for ''logs_d'') = Completed r \<and>
      log_files r = [file_a] @ file_d # [] \<and>
      length (all_entries r) = 3 \<and>
      all_errors r =
        [''a.jsonl:3 JSONDecodeError: Expecting value: line 1 column 1 (char 0)'',
         ''d.jsonl: Could not read file: [Errno 13] Permission denied'']"
    by (rule exI [of _ r]) (intro conjI r lf 2 3)
  with d l 1 show ?thesis by (intro conjI)
qed

text \<open>
  A non-blank line on which the parser raises \<open>JSONDecodeError\<close>, and which the scan of
  its file reaches, is recorded with the file name, the number of the line (counting
  from 1, blank lines included) and the parser's message, between the errors of the
  lines before it and those of the lines after it. The records and errors of all files
  are concatenated in file order.
\<close>

lemma decode_error_recorded:
  assumes "lines f = pre @ l # post"
    and "str_strip l \<noteq> []"
    and "loads (str_strip l) = JSONDecodeError m"
    and "\<And>x m'. x \<in> set pre \<Longrightarrow> str_strip x \<noteq> [] \<Longrightarrow> loads (str_strip x) \<noteq> Raised m'"
  shows "(\<exists>e1 r1 e2 r2.
      read_lines loads (name f) 1 pre None [] [] = (e1, r1) \<and>
      read_lines loads (name f) (int (length pre) + 2) post (read_error f) [] [] = (e2, r2) \<and>
      read_jsonl_file loads f =
        (e1 @ e2,
         r1 @ [name f @ '':'' @ str_int (int (length pre) + 1) @ '' JSONDecodeError: '' @ m]
            @ r2)) \<and>
    read_all loads lfs [] [] =
      (concat (map (\<lambda>lf. fst (read_jsonl_file loads lf)) lfs),
       concat (map (\<lambda>lf. snd (read_jsonl_file loads lf)) lfs)) \<and>
    (\<forall>r. main loads repr fs now argv = Completed r \<longrightarrow>
       sorted (map name (log_files r)) \<and>
       all_errors r = concat (map (\<lambda>lf. snd (read_jsonl_file loads lf)) (log_files r)))"
proof (intro conjI allI impI)
  obtain e1 r1 where pre: "read_lines loads (name f) 1 pre None [] [] = (e1, r1)"
    by (cases "read_lines loads (name f) 1 pre None [] []")
  obtain e2 r2
    where post: "read_lines loads (name f) (int (length pre) + 2) post (read_error f) [] [] = (e2, r2)"
    by (cases "read_lines loads (name f) (int (length pre) + 2) post (read_error f) [] []")
  let ?err = "decode_error (name f) (1 + int (length pre)) m"
  have "read_jsonl_file loads f =
      read_lines loads (name f) (1 + int (length pre)) (l # post) (read_error f) e1 r1"
    using assms(4) by (simp add: read_jsonl_file_def assms(1) read_lines_append pre)
  also have "\<dots> =
      read_lines loads (name f) (int (length pre) + 2) post (read_error f) e1 (r1 @ [?err])"
    using assms(2,3) by (simp add: ac_simps)
  also have "\<dots> = (e1 @ e2, (r1 @ [?err]) @ r2)"
    using read_lines_acc [of loads "name f" "int (length pre) + 2" post "read_error f" e1 "r1 @ [?err]"]
    by (simp add: post)
  finally have "read_jsonl_file loads f =
        (e1 @ e2,
         r1 @ [name f @ '':'' @ str_int (int (length pre) + 1) @ '' JSONDecodeError: '' @ m]
            @ r2)"
    by (simp add: decode_error_def ac_simps)
  with pre post show "\<exists>e1 r1 e2 r2.
      read_lines loads (name f) 1 pre None [] [] = (e1, r1) \<and>
      read_lines loads (name f) (int (length pre) + 2) post (read_error f) [] [] = (e2, r2) \<and>
      read_jsonl_file loads f =
        (e1 @ e2,
         r1 @ [name f @ '':'' @ str_int (int (length pre) + 1) @ '' JSONDecodeError: '' @ m]
            @ r2)"
    by (intro exI conjI)
next
  show "read_all loads lfs [] [] =
      (concat (map (\<lambda>lf. fst (read_jsonl_file loads lf)) lfs),
       concat (map (\<lambda>lf. snd (read_jsonl_file loads lf)) lfs))"
    by (simp add: read_all_concat)
next
  fix r
  assume r: "main loads repr fs now argv = Completed r"
  then obtain entries
    where "log_files r = sort_key name (filter (\<lambda>lf. glob_jsonl (name lf)) entries)"
    by (rule main_CompletedE)
  then show "sorted (map name (log_files r))" by simp
  from r show "all_errors r = concat (map (\<lambda>lf. snd (read_jsonl_file loads lf)) (log_files r))"
    by (rule main_CompletedE)
qed

text \<open>
  \<open>str.strip()\<close> on a line of digits 1: only the line end is removed.
\<close>

lemma lstrip_one: "lstrip (CHR ''1'' # s) = CHR ''1'' # s"
proof -
  have "ws_at_start (CHR ''1'' # s) = None"
    by (simp add: ws_at_start_def whitespace_def)
  then show ?thesis by simp
qed

lemma ws_at_end_one: "ws_at_end (s @ [CHR ''1'']) = None"
proof -
  have "last w = CHR ''1''"
    if "w \<noteq> []" and "drop (length (s @ [CHR ''1'']) - length w) (s @ [CHR ''1'']) = w"
      and "length w \<le> length (s @ [CHR ''1''])" for w
  proof -
    from that(1,3) have "length (s @ [CHR ''1'']) - length w < length (s @ [CHR ''1''])"
      by (cases w) auto
    then have "last (drop (length (s @ [CHR ''1'']) - length w) (s @ [CHR ''1'']))
        = last (s @ [CHR ''1''])"
      by (rule last_drop)
    with that(2) show ?thesis by simp
  qed
  then have "\<not> (length w \<le> length (s @ [CHR ''1'']) \<and>
      drop (length (s @ [CHR ''1'']) - length w) (s @ [CHR ''1'']) = w)"
    if "w \<in> set whitespace" for w
    using that by (auto simp: whitespace_def)
  then show ?thesis
    by (simp add: ws_at_end_def find_None_iff)
qed

lemma rstrip_one_nl: "rstrip (s @ [CHR ''1''] @ nl) = s @ [CHR ''1'']"
proof -
  have "ws_at_end (s @ [CHR ''1''] @ nl) = Some nl"
    by (simp add: ws_at_end_def whitespace_def)
  then have "rstrip (s @ [CHR ''1''] @ nl) = rstrip (s @ [CHR ''1''])"
    by simp
  also have "\<dots> = s @ [CHR ''1'']"
    using ws_at_end_one [of s] by simp
  finally show ?thesis .
qed

lemma line_big_Cons: "line_big = CHR ''1'' # replicate 4999 (CHR ''1'')"
proof -
  have "(5000::nat) = Suc 4999" by simp
  then show ?thesis by (simp only: line_big_def replicate_Suc)
qed

lemma str_strip_line_big: "str_strip (line_big @ nl) = line_big"
proof -
  have snoc: "line_big = replicate 4999 (CHR ''1'') @ [CHR ''1'']"
    by (simp only: line_big_Cons replicate_append_same)
  have "lstrip (line_big @ nl) = line_big @ nl"
    by (simp add: line_big_Cons lstrip_one del: lstrip.simps)
  moreover have "rstrip (line_big @ nl) = line_big"
    using rstrip_one_nl [of "replicate 4999 (CHR ''1'')"] by (simp only: snoc append_assoc)
  ultimately show ?thesis by (simp only: str_strip_def)
qed


text \<open>
  Claim C8 does not hold of the script. The loop catches \<open>JSONDecodeError\<close> only. A
  line on which the parser raises another exception is not recorded with its line
  number: the exception leaves the loop, the outer handler records it as a failure to
  read the file, and the lines after it are not processed. In the file below the first
  line is such a line; the second line is not JSON and the third holds a record, yet
  neither a decode error for line 2 nor the record of line 3 comes out of the file.
\<close>

theorem other_parser_exception_drops_lines:
  "lines file_e = [line_big @ nl, ''not-json'' @ nl, line_y @ nl] \<and>
   sample_loads_big (str_strip (line_big @ nl)) =
     Raised (''Exceeds the limit (4300 digits) for integer string conversion: ''
             @ ''value has 5000 digits; use sys.set_int_max_str_digits() ''
             @ ''to increase the limit'') \<and>
   sample_loads_big (str_strip (''not-json'' @ nl)) =
     JSONDecodeError ''Expecting value: line 1 column 1 (char 0)'' \<and>
   sample_loads_big (str_strip (line_y @ nl)) =
     Loaded (PDict [(''check'', PStr ''y''), (''status'', PStr ''OK'')]) \<and>
   read_jsonl_file sample_loads_big file_e =
     ([], [''e.jsonl: Could not read file: ''
           @ ''Exceeds the limit (4300 digits) for integer string conversion: ''
           @ ''value has 5000 digits; use sys.set_int_max_str_digits() ''
           @ ''to increase the limit''])"
proof -
  have big: "sample_loads_big (str_strip (line_big @ nl)) =
     Raised (''Exceeds the limit (4300 digits) for integer string conversion: ''
             @ ''value has 5000 digits; use sys.set_int_max_str_digits() ''
             @ ''to increase the limit'')"
    by (simp add: str_strip_line_big sample_loads_big_def)
  have "str_strip (''not-json'' @ nl) = ''not-json''"
    and "sample_loads ''not-json'' = JSONDecodeError ''Expecting value: line 1 column 1 (char 0)''"
    by code_simp+
  then have bad: "sample_loads_big (str_strip (''not-json'' @ nl)) =
     JSONDecodeError ''Expecting value: line 1 column 1 (char 0)''"
    by (simp add: sample_loads_big_def line_big_Cons)
  have "str_strip (line_y @ nl) = line_y"
    and "sample_loads line_y = Loaded (PDict [(''check'', PStr ''y''), (''status'', PStr ''OK'')])"
    by code_simp+
  then have good: "sample_loads_big (str_strip (line_y @ nl)) =
     Loaded (PDict [(''check'', PStr ''y''), (''status'', PStr ''OK'')])"
    by (simp add: sample_loads_big_def line_big_Cons line_y_def)
  have ne: "line_big \<noteq> []"
    by (simp add: line_big_Cons)
  have "read_jsonl_file sample_loads_big file_e =
     ([], [could_not_read ''e.jsonl''
            (''Exceeds the limit (4300 digits) for integer string conversion: ''
             @ ''value has 5000 digits; use sys.set_int_max_str_digits() ''
             @ ''to increase the limit'')])"
    using big ne by (simp add: read_jsonl_file_def file_e_def str_strip_line_big)
  then have read: "read_jsonl_file sample_loads_big file_e =
     ([], [''e.jsonl: Could not read file: ''
           @ ''Exceeds the limit (4300 digits) for integer string conversion: ''
           @ ''value has 5000 digits; use sys.set_int_max_str_digits() ''
           @ ''to increase the limit''])"
    by (simp add: could_not_read_def)
  have "lines file_e = [line_big @ nl, ''not-json'' @ nl, line_y @ nl]"
    by (simp add: file_e_def)
  with big bad good read show ?thesis by (intro conjI)
qed

text \<open>
  The run as a whole, as far as it is modelled (resolving the two paths and writing the
  report are taken to succeed). It ends in \<open>sys.exit(2)\<close> exactly when the argument
  count is wrong, the log directory is missing or not a directory, or no entry matches
  \<open>*.jsonl\<close>; the one exception of the loops of \<open>main\<close> is the \<open>AttributeError\<close> of the
  classifier; a run that completes exits with 1 when the FAIL counter is positive and
  with 0 otherwise, and only such a run writes a report.
\<close>

lemma main_config_error:
  "(\<exists>c. main loads repr fs now argv = ConfigError c) \<longleftrightarrow>
     length argv \<noteq> 3 \<or>
     (\<forall>entries. fs (argv ! 1) \<noteq> Some (Directory entries)) \<or>
     (\<exists>entries. fs (argv ! 1) = Some (Directory entries) \<and>
        filter (\<lambda>lf. glob_jsonl (name lf)) entries = [])"
proof (cases "length argv = 3")
  case False
  then show ?thesis by (simp add: main_def)
next
  case len: True
  show ?thesis
  proof (cases "fs (argv ! 1)")
    case None
    with len show ?thesis by (simp add: main_def)
  next
    case (Some nd)
    show ?thesis
    proof (cases nd)
      case NotADirectory
      with len Some show ?thesis by (simp add: main_def)
    next
      case (Directory entries)
      have e: "sort_key name xs = [] \<longleftrightarrow> xs = []" for xs :: "log_file list"
        by (metis length_sort length_0_conv)
      from len Some Directory show ?thesis
        by (auto simp: main_def Let_def e split: prod.splits sum.splits)
    qed
  qed
qed

lemma main_Traceback:
  assumes "main loads repr fs now argv = Traceback ex"
  shows "ex = AttributeError"
proof -
  from assms have len: "length argv = 3"
    by (auto simp: main_def split: if_splits)
  with assms obtain entries where dir: "fs (argv ! 1) = Some (Directory entries)"
    by (auto simp: main_def split: option.splits node.splits)
  define lfs where "lfs = sort_key name (filter (\<lambda>lf. glob_jsonl (name lf)) entries)"
  from assms len dir have ne: "lfs \<noteq> []"
    by (auto simp: main_def lfs_def Let_def split: if_splits)
  obtain ents errs where ra: "read_all loads lfs [] [] = (ents, errs)"
    by (cases "read_all loads lfs [] []")
  show ?thesis
  proof (cases "classify ents []")
    case (Inl a)
    with assms len dir ne ra have "ex = a"
      by (simp add: main_def lfs_def Let_def)
    with Inl classify_Inl show ?thesis by blast
  next
    case (Inr ces)
    then obtain ds where ces: "ces = map attach_status (filter (\<lambda>d. \<not> reserved d) ds)"
      by (auto simp: classify_Inr)
    have "\<exists>st\<in>ALLOWED_STATUS. norm_status_of e = Inr st" if "e \<in> set ces" for e
      using that by (auto simp: ces norm_status_of_attach normalize_status_allowed)
    then obtain s where
      "summarize ces \<lparr>tally = \<lparr>OK = 0, WARN = 0, FAIL = 0\<rparr>, worst = ''OK'', findings = []\<rparr> = Inr s"
      using summarize_total by blast
    with assms len dir ne ra Inr show ?thesis
      by (simp add: main_def lfs_def Let_def)
  qed
qed

lemma exit_status_cases:
  "(exit_status (main loads repr fs now argv) = 2 \<longleftrightarrow>
      (\<exists>c. main loads repr fs now argv = ConfigError c)) \<and>
   (\<forall>c. main loads repr fs now argv = ConfigError c \<longrightarrow>
      report_file (main loads repr fs now argv) = None) \<and>
   (\<forall>r. main loads repr fs now argv = Completed r \<longrightarrow>
      exit_status (main loads repr fs now argv) = (if 0 < FAIL (tally (result r)) then 1 else 0) \<and>
      report_file (main loads repr fs now argv) = Some (report r)) \<and>
   (\<forall>ex. main loads repr fs now argv = Traceback ex \<longrightarrow>
      exit_status (main loads repr fs now argv) = 1 \<and>
      report_file (main loads repr fs now argv) = None)"
proof -
  have "exit_code r = (if 0 < FAIL (tally (result r)) then 1 else 0)"
    if r: "main loads repr fs now argv = Completed r" for r
  proof -
    from r have "summarize (check_entries r)
      \<lparr>tally = \<lparr>OK = 0, WARN = 0, FAIL = 0\<rparr>, worst = ''OK'', findings = []\<rparr> = Inr (result r)"
      by (rule main_CompletedE)
    from summarize_tally [OF this] have "0 \<le> FAIL (tally (result r))" by simp
    moreover from r have "exit_code r = (if FAIL (tally (result r)) = 0 then 0 else 1)"
      by (rule main_CompletedE)
    ultimately show ?thesis by simp
  qed
  then show ?thesis
    by (cases "main loads repr fs now argv")
      (auto simp: exit_status_def report_file_def)
qed

text \<open>
  Claim C3 does not hold of the script. A line holding a JSON value that is not an
  object is accepted by the decoder, and the value becomes an entry; but the classifier
  then calls \<open>get\<close> on it, which only a \<open>dict\<close> has, and the run ends in an
  \<open>AttributeError\<close> before anything is counted or written. The fields of such a record
  are not treated as absent. Evaluated on a directory whose one file holds the line
  \<open>42\<close>.
\<close>

theorem non_object_line_aborts:
  "str_strip (''42'' @ nl) = ''42'' \<and> sample_loads ''42'' = Loaded (PInt 42) \<and>
   read_jsonl_file sample_loads file_n = ([PInt 42], []) \<and>
   classify [PInt 42] [] = Inl AttributeError \<and>
   main sample_loads sample_repr sample_fs sample_now (argv_for ''logs_n'') =
     Traceback AttributeError"
  by code_simp

text \<open>
  Claim C7 does not hold of the script, for the same reason. The directory below exists
  and has a matching file, three arguments are given, and no record has the status
  FAIL; yet the run does not complete: no report is written, and the interpreter exits
  with status 1 on the uncaught exception. What holds of the runs of the model is
  \<open>exit_status_cases\<close> above.
\<close>

theorem non_object_line_exit_status:
  "sample_fs (argv_for ''logs_n'' ! 1) = Some (Directory [file_n]) \<and>
   length (argv_for ''logs_n'') = 3 \<and>
   filter (\<lambda>lf. glob_jsonl (name lf)) [file_n] = [file_n] \<and>
   exit_status (main sample_loads sample_repr sample_fs sample_now (argv_for ''logs_n'')) = 1 \<and>
   report_file (main sample_loads sample_repr sample_fs sample_now (argv_for ''logs_n'')) = None"
  by code_simp

text \<open>
  \<open>main\<close> sees the directory only through the sorted list of its matching entries, and
  the time stamp only in the report.
\<close>

lemma main_perm:
  assumes "fs (argv ! 1) = Some (Directory entries)" and "fs' (argv ! 1) = Some (Directory entries')"
    and "mset entries = mset entries'" and "distinct (map name entries)"
  shows "main loads repr fs now argv = main loads repr fs' now argv"
  using assms(1,2) sort_key_name_perm [OF assms(3,4), of "\<lambda>lf. glob_jsonl (name lf)"]
  by (simp add: main_def)

lemma main_now:
  assumes "main loads repr fs now argv = Completed r"
  shows "main loads repr fs now' argv =
     Completed (r\<lparr>report := write_report repr now' (log_files r) (length (check_entries r))
                              (result r) (risk r) (all_errors r)\<rparr>)"
proof -
  from assms have len: "length argv = 3"
    by (auto simp: main_def split: if_splits)
  with assms obtain entries where dir: "fs (argv ! 1) = Some (Directory entries)"
    by (auto simp: main_def split: option.splits node.splits)
  define lfs where "lfs = sort_key name (filter (\<lambda>lf. glob_jsonl (name lf)) entries)"
  from assms len dir have ne: "lfs \<noteq> []"
    by (auto simp: main_def lfs_def Let_def split: if_splits)
  obtain ents errs where ra: "read_all loads lfs [] [] = (ents, errs)"
    by (cases "read_all loads lfs [] []")
  with assms len dir ne obtain ces where cl: "classify ents [] = Inr ces"
    by (auto simp: main_def lfs_def Let_def split: sum.splits)
  with assms len dir ne ra obtain s where
    su: "summarize ces \<lparr>tally = \<lparr>OK = 0, WARN = 0, FAIL = 0\<rparr>, worst = ''OK'', findings = []\<rparr> = Inr s"
    by (auto simp: main_def lfs_def Let_def split: sum.splits)
  from assms len dir ne ra cl su have r: "r =
      \<lparr>log_files = lfs, all_entries = ents, all_errors = errs,
       check_entries = ces, result = s, risk = risk_level (FAIL (tally s)),
       report = write_report repr now lfs (length ces) s (risk_level (FAIL (tally s))) errs,
       exit_code = (if FAIL (tally s) = 0 then 0 else 1)\<rparr>"
    by (simp add: main_def lfs_def Let_def)
  from len dir ne ra cl su show ?thesis
    by (simp add: main_def lfs_def [symmetric] Let_def r)
qed

text \<open>
  Claim C9. Two runs over the same directory contents, listed by the system in any
  order (the names of a directory's entries are distinct), with the same arguments and
  any two time stamps, end alike: when one completes so does the other, with the same
  list of log files (the entries matching \<open>*.jsonl\<close>, sorted by name), the same exit
  code, and reports that are equal byte for byte except for the time stamp after
  \<open>**Genererad:**\<close>.
\<close>

theorem report_deterministic:
  assumes "fs (argv ! 1) = Some (Directory entries)" and "fs' (argv ! 1) = Some (Directory entries')"
    and "mset entries = mset entries'" and "distinct (map name entries)"
    and "main loads repr fs now argv = Completed r"
  shows "\<exists>r' body.
    main loads repr fs' now' argv = Completed r' \<and>
    report r = ''# Security baseline-rapport'' @ nl @ nl @ ''**Genererad:** '' @ now @ body \<and>
    report r' = ''# Security baseline-rapport'' @ nl @ nl @ ''**Genererad:** '' @ now' @ body \<and>
    log_files r' = log_files r \<and>
    sorted (map name (log_files r)) \<and>
    set (log_files r) = {lf \<in> set entries. glob_jsonl (name lf)} \<and>
    exit_code r' = exit_code r"
proof -
  let ?run = "r\<lparr>report := write_report repr now' (log_files r) (length (check_entries r))
                              (result r) (risk r) (all_errors r)\<rparr>"
  let ?body = "report_body repr (log_files r) (length (check_entries r))
                              (result r) (risk r) (all_errors r)"
  from assms(5) have "main loads repr fs now' argv = Completed ?run"
    by (rule main_now)
  with main_perm [where fs = fs and fs' = fs' and argv = argv, OF assms(1-4)] have 1: "main loads repr fs' now' argv = Completed ?run"
    by simp
  from assms(5) have rep: "report r =
      write_report repr now (log_files r) (length (check_entries r)) (result r) (risk r)
        (all_errors r)"
    by (rule main_CompletedE)
  from assms(5) obtain es where "fs (argv ! 1) = Some (Directory es)"
    and "log_files r = sort_key name (filter (\<lambda>lf. glob_jsonl (name lf)) es)"
    by (rule main_CompletedE)
  with assms(1) have lf: "log_files r = sort_key name (filter (\<lambda>lf. glob_jsonl (name lf)) entries)"
    by simp
  have 2: "report r = ''# Security baseline-rapport'' @ nl @ nl @ ''**Genererad:** '' @ now @ ?body"
    by (simp add: rep write_report_def)
  have 3: "report ?run = ''# Security baseline-rapport'' @ nl @ nl @ ''**Genererad:** '' @ now' @ ?body"
    by (simp add: write_report_def)
  have 4: "log_files ?run = log_files r" and 7: "exit_code ?run = exit_code r"
    by simp_all
  have 5: "sorted (map name (log_files r))"
    by (simp add: lf)
  have 6: "set (log_files r) = {lf \<in> set entries. glob_jsonl (name lf)}"
    by (auto simp: lf)
  show ?thesis
    by (rule exI [of _ ?run], rule exI [of _ ?body]) (intro conjI 1 2 3 4 5 6 7)
qed

theorem report_deterministic_witness:
  "sample_fs (argv_for ''logs_ab'' ! 1) = Some (Directory [file_b, notes_txt, file_a]) \<and>
   sample_fs' (argv_for ''logs_ab'' ! 1) = Some (Directory [file_a, file_b, notes_txt]) \<and>
   mset [file_b, notes_txt, file_a] = mset [file_a, file_b, notes_txt] \<and>
   distinct (map name [file_b, notes_txt, file_a]) \<and>
   (\<exists>r r' body.
      main sample_loads sample_repr sample_fs ''2024-05-01 12:00:00'' (argv_for ''logs_ab'')
        = Completed r \<and>
      main sample_loads sample_repr sample_fs' ''2024-05-02 08:30:00'' (argv_for ''logs_ab'')
        = Completed r' \<and>
      report r = ''# Security baseline-rapport'' @ nl @ nl @ ''**Genererad:** ''
        @ ''2024-05-01 12:00:00'' @ body \<and>
      report r' = ''# Security baseline-rapport'' @ nl @ nl @ ''**Genererad:** ''
        @ ''2024-05-02 08:30:00'' @ body \<and>
      map name (log_files r) = [''a.jsonl'', ''b.jsonl''])"
proof -
  have a: "sample_fs (argv_for ''logs_ab'' ! 1) = Some (Directory [file_b, notes_txt, file_a])"
    and b: "sample_fs' (argv_for ''logs_ab'' ! 1) = Some (Directory [file_a, file_b, notes_txt])"
    by code_simp+
  have c: "mset [file_b, notes_txt, file_a] = mset [file_a, file_b, notes_txt]"
    by (simp add: add.commute)
  have d: "distinct (map name [file_b, notes_txt, file_a])"
    by code_simp
  have "case main sample_loads sample_repr sample_fs ''2024-05-01 12:00:00''
          (argv_for ''logs_ab'') of
      Completed r \<Rightarrow> map name (log_files r) = [''a.jsonl'', ''b.jsonl''] | _ \<Rightarrow> False"
    by code_simp
  then obtain r where r: "main sample_loads sample_repr sample_fs ''2024-05-01 12:00:00''
        (argv_for ''logs_ab'') = Completed r"
    and n: "map name (log_files r) = [''a.jsonl'', ''b.jsonl'']"
    by (auto split: outcome.splits)
  from report_deterministic
      [where fs = sample_fs and fs' = sample_fs' and argv = "argv_for ''logs_ab''"
         and now' = "''2024-05-02 08:30:00''", OF a b c d r]
  obtain r' body
    where 1: "main sample_loads sample_repr sample_fs' ''2024-05-02 08:30:00''
        (argv_for ''logs_ab'') = Completed r'"
      and 2: "report r = ''# Security baseline-rapport'' @ nl @ nl @ ''**Genererad:** ''
        @ ''2024-05-01 12:00:00'' @ body"
      and 3: "report r' = ''# Security baseline-rapport'' @ nl @ nl @ ''**Genererad:** ''
        @ ''2024-05-02 08:30:00'' @ body"
    by auto
  have "\<exists>r r' body.
      main sample_loads sample_repr sample_fs ''2024-05-01 12:00:00'' (argv_for ''logs_ab'')
        = Completed r \<and>
      main sample_loads sample_repr sample_fs' ''2024-05-02 08:30:00'' (argv_for ''logs_ab'')
        = Completed r' \<and>
      report r = ''# Security baseline-rapport'' @ nl @ nl @ ''**Genererad:** ''
        @ ''2024-05-01 12:00:00'' @ body \<and>
      report r' = ''# Security baseline-rapport'' @ nl @ nl @ ''**Genererad:** ''
        @ ''2024-05-02 08:30:00'' @ body \<and>
      map name (log_files r) = [''a.jsonl'', ''b.jsonl'']"
    by (rule exI [of _ r], rule exI [of _ r'], rule exI [of _ body]) (intro conjI r 1 2 3 n)
  with a b c d show ?thesis by (intro conjI)
qed







end
